theory Spec2Isabelle
  imports Complex_Main "HOL-Library.Multiset"
begin

section \<open>Name matching of carmac\_tools (file\_tools.py)\<close>

text \<open>
  The development embeds the pure core of \<^verbatim>\<open>src/carmac_tools/file_tools.py\<close>:
  \<^verbatim>\<open>remove_extension\<close>, \<^verbatim>\<open>is_valid_filename\<close>, \<^verbatim>\<open>normalize_string\<close>,
  \<^verbatim>\<open>get_score\<close> and \<^verbatim>\<open>string_matching\<close>.

  Modelling decisions.
  \<^item> A Python \<^verbatim>\<open>str\<close> is a \<^typ>\<open>string\<close>; a \<^typ>\<open>char\<close> stands for a code point
    below 256 (the Latin-1 block), so \<^verbatim>\<open>str.lower\<close> is the Latin-1 part of the Unicode
    lower-case mapping.
  \<^item> A raised \<^verbatim>\<open>ValueError\<close> is a value \<open>Inl e\<close> of a sum type.
  \<^item> Scores are Python floats (or ints, for thefuzz); the matcher only compares them, so
    they are modelled by the real numbers they denote. The one place where the code itself
    does float arithmetic is the difflib branch (\<^verbatim>\<open>2.0 * matches / length\<close> and
    \<^verbatim>\<open>* 100\<close>): the model computes it in exact reals, without the rounding of
    doubles, so the two can differ in the last bit (the model gives 58 where the doubles give
    57.99999999999999 for 29 matches on a total length of 100). No general statement below
    depends on how a score is computed, and the closed examples use inputs whose scores (0,
    50, 70, 100 and the like) are the same in doubles.
  \<^item> The normalization pattern is a well-formed regular expression (a malformed one makes
    \<^verbatim>\<open>re.sub\<close> raise before any score is computed; the type \<open>pattern\<close> has no such
    value).
  \<^item> The similarity functions of rapidfuzz and thefuzz and \<^verbatim>\<open>SequenceMatcher.ratio\<close> are
    code of other packages; they are parameters of the model (record \<open>backends\<close>).
    \<^verbatim>\<open>SequenceMatcher.quick_ratio\<close> and \<^verbatim>\<open>pathlib.PurePosixPath.stem\<close> are small
    functions of the Python standard library and are transcribed from CPython 3.10/3.11,
    the versions named by setup.py.
\<close>

subsection \<open>remove\_extension: \<^verbatim>\<open>Path(filename).stem\<close>\<close>

text \<open>\<^verbatim>\<open>str.split('/')\<close>: the pieces between separators, empty pieces included.\<close>

fun split_sep :: "string \<Rightarrow> string list" where
  "split_sep [] = [[]]"
| "split_sep (c # cs) =
     (if c = CHR ''/'' then [] # split_sep cs
      else (case split_sep cs of [] \<Rightarrow> [[c]] | p # ps \<Rightarrow> (c # p) # ps))"

text \<open>
  \<^verbatim>\<open>PurePosixPath(s).name\<close>: the path is parsed into its components, dropping empty
  components and \<^verbatim>\<open>'.'\<close> components; the name is the last component, or the empty
  string when there is none. (\<^verbatim>\<open>Path\<close> is the POSIX flavour here; on Windows a
  backslash separates components as well and a drive prefix is split off.)
\<close>

definition path_name :: "string \<Rightarrow> string" where
  "path_name s =
     (case filter (\<lambda>x. x \<noteq> [] \<and> x \<noteq> ''.'') (split_sep s) of
        [] \<Rightarrow> []
      | p # ps \<Rightarrow> last (p # ps))"

text \<open>\<^verbatim>\<open>str.rfind(c)\<close>: the index of the last occurrence, or -1.\<close>

fun rfind :: "string \<Rightarrow> char \<Rightarrow> int" where
  "rfind [] c = -1"
| "rfind (x # xs) c =
     (let r = rfind xs c in
      if r \<noteq> -1 then r + 1 else if x = c then 0 else -1)"

text \<open>
  \<^verbatim>\<open>PurePath.stem\<close>:
  \<^verbatim>\<open>i = name.rfind('.'); return name[:i] if 0 < i < len(name) - 1 else name\<close>.
\<close>

definition stem :: "string \<Rightarrow> string" where
  "stem s =
     (let name = path_name s; i = rfind name CHR ''.'' in
      if 0 < i \<and> i < int (length name) - 1 then take (nat i) name else name)"

definition remove_extension :: "string \<Rightarrow> string" where
  "remove_extension filename = stem filename"

subsection \<open>is\_valid\_filename\<close>

text \<open>The character class \<^verbatim>\<open>[\\/*?:"<>|]\<close> of the regular expression.\<close>

definition windows_illegal :: "char list" where
  "windows_illegal =
     [CHR 0x5C, CHR ''/'', CHR ''*'', CHR ''?'', CHR '':'', CHR 0x22, CHR ''<'', CHR ''>'', CHR ''|'']"

text \<open>\<^verbatim>\<open>re.search\<close> of a character class: some character of the string is in the class.\<close>

definition re_search_class :: "char list \<Rightarrow> string \<Rightarrow> bool" where
  "re_search_class cls s = list_ex (\<lambda>c. c \<in> set cls) s"

definition is_valid_filename :: "string \<Rightarrow> string \<Rightarrow> bool" where
  "is_valid_filename filename os_type =
     (if os_type = ''windows'' \<and> re_search_class windows_illegal filename then False
      else if os_type = ''unix'' \<and> (CHR ''/'' \<in> set filename \<or> CHR 0x00 \<in> set filename) then False
      else True)"

subsection \<open>normalize\_string\<close>

text \<open>\<^verbatim>\<open>str.lower\<close> on code points below 256: A-Z and the upper-case letters
  U+00C0..U+00DE except the multiplication sign U+00D7 move up by 32.\<close>

definition lower_char :: "char \<Rightarrow> char" where
  "lower_char c =
     (let n = (of_char c :: nat) in
      if (65 \<le> n \<and> n \<le> 90) \<or> (192 \<le> n \<and> n \<le> 222 \<and> n \<noteq> 215)
      then char_of (n + 32) else c)"

definition lower :: "string \<Rightarrow> string" where
  "lower s = map lower_char s"

text \<open>
  The normalization pattern is a regular expression that \<^verbatim>\<open>re.sub\<close> deletes. The
  patterns of the specification are character-retention patterns: a negated character class
  under \<^verbatim>\<open>+\<close>, such as the default \<^verbatim>\<open>[^a-z0-9]+\<close>. \<open>NegClassPlus K\<close> is the
  pattern \<^verbatim>\<open>[^K]+\<close>, with the class \<open>K\<close> of retained characters given by its
  membership test.
\<close>

datatype pattern = NegClassPlus (retained: "char \<Rightarrow> bool")

text \<open>
  \<^verbatim>\<open>re.sub(pattern, '', s)\<close> for such a pattern: scanning from the left, a character of
  the class \<open>K\<close> is copied; at any other character the greedy match takes the whole run of
  characters outside \<open>K\<close>, which is replaced by the empty string.
\<close>

function re_sub_empty :: "pattern \<Rightarrow> string \<Rightarrow> string" where
  "re_sub_empty p [] = []"
| "re_sub_empty p (c # cs) =
     (if retained p c then c # re_sub_empty p cs
      else re_sub_empty p (dropWhile (\<lambda>x. \<not> retained p x) cs))"
  by pat_completeness auto
termination
  by (relation "measure (\<lambda>(p, s). length s)")
     (auto simp: length_dropWhile_le less_Suc_eq_le)

definition normalize_string :: "string \<Rightarrow> pattern \<Rightarrow> string" where
  "normalize_string s filter_pattern = re_sub_empty filter_pattern (lower s)"

text \<open>The default \<^verbatim>\<open>r'[^a-z0-9]+'\<close>.\<close>

definition default_pattern :: pattern where
  "default_pattern = NegClassPlus (\<lambda>c. c \<in> set ''abcdefghijklmnopqrstuvwxyz0123456789'')"

subsection \<open>get\_score\<close>

text \<open>Both \<^verbatim>\<open>raise ValueError(...)\<close> statements of \<^verbatim>\<open>get_score\<close>, each with the
  offending configuration value.\<close>

datatype error = UnknownLibrary string | UnsupportedMethod string

text \<open>The similarity functions of the external packages, and \<^verbatim>\<open>SequenceMatcher.ratio\<close>
  (with \<^verbatim>\<open>isjunk=None, autojunk=False\<close>), as functions of the two strings.\<close>

record backends =
  rapidfuzz_ratio :: "string \<Rightarrow> string \<Rightarrow> real"
  rapidfuzz_partial_ratio :: "string \<Rightarrow> string \<Rightarrow> real"
  thefuzz_ratio :: "string \<Rightarrow> string \<Rightarrow> real"
  thefuzz_partial_ratio :: "string \<Rightarrow> string \<Rightarrow> real"
  difflib_ratio :: "string \<Rightarrow> string \<Rightarrow> real"

text \<open>
  \<^verbatim>\<open>SequenceMatcher.quick_ratio\<close> (CPython, Lib/difflib.py). \<open>fullbcount\<close> counts
  the occurrences of each element in \<open>b\<close>; the loop over \<open>a\<close> keeps in \<open>avail\<close> how
  many occurrences are still available and counts an element of \<open>a\<close> as a match while
  some are:
  \<^verbatim>\<open>numb = avail[elt] if elt in avail else fullbcount.get(elt, 0);
  avail[elt] = numb - 1; if numb > 0: matches = matches + 1\<close>.
\<close>

fun quick_matches :: "string \<Rightarrow> (char \<Rightarrow> int) \<Rightarrow> (char \<rightharpoonup> int) \<Rightarrow> nat \<Rightarrow> nat" where
  "quick_matches [] fullbcount avail matches = matches"
| "quick_matches (elt # rest) fullbcount avail matches =
     (let numb = (case avail elt of Some n \<Rightarrow> n | None \<Rightarrow> fullbcount elt) in
      quick_matches rest fullbcount (avail(elt \<mapsto> numb - 1))
        (if numb > 0 then matches + 1 else matches))"

text \<open>\<^verbatim>\<open>_calculate_ratio\<close>: \<^verbatim>\<open>2.0 * matches / length if length else 1.0\<close>.\<close>

definition calculate_ratio :: "nat \<Rightarrow> nat \<Rightarrow> real" where
  "calculate_ratio matches len = (if len \<noteq> 0 then 2 * real matches / real len else 1)"

definition quick_ratio :: "string \<Rightarrow> string \<Rightarrow> real" where
  "quick_ratio a b =
     calculate_ratio (quick_matches a (\<lambda>c. int (count_list b c)) Map.empty 0)
       (length a + length b)"

definition valid_libraries :: "string list" where
  "valid_libraries = [''rapidfuzz'', ''thefuzz'', ''difflib'']"

definition valid_methods :: "string list" where
  "valid_methods = [''exact'', ''partial'']"

text \<open>
  \<^verbatim>\<open>get_score\<close>. Both checks come first; the dispatch follows the source's
  \<^verbatim>\<open>if/elif\<close> chain. After the checks the library is one of the three names, so the
  chain's last test \<^verbatim>\<open>library == 'difflib'\<close> is the remaining case.
\<close>

definition get_score :: "backends \<Rightarrow> string \<Rightarrow> string \<Rightarrow> string \<Rightarrow> string \<Rightarrow> error + real" where
  "get_score bk library match_method normalized_name normalized_target =
     (if library \<notin> set valid_libraries then Inl (UnknownLibrary library)
      else if match_method \<notin> set valid_methods then Inl (UnsupportedMethod match_method)
      else if library = ''rapidfuzz'' then
        (if match_method = ''exact''
         then Inr (rapidfuzz_ratio bk normalized_name normalized_target)
         else Inr (rapidfuzz_partial_ratio bk normalized_name normalized_target))
      else if library = ''thefuzz'' then
        (if match_method = ''exact''
         then Inr (thefuzz_ratio bk normalized_name normalized_target)
         else Inr (thefuzz_partial_ratio bk normalized_name normalized_target))
      else
        (if match_method = ''exact''
         then Inr (difflib_ratio bk normalized_name normalized_target * 100)
         else Inr (quick_ratio normalized_name normalized_target * 100)))"

subsection \<open>string\_matching\<close>

text \<open>The dictionary \<^verbatim>\<open>{'name': base_name, 'matched_name': best_match}\<close>.\<close>

record match_record =
  name :: string
  matched_name :: string

text \<open>The string that is scored for a target: in filename mode the extension is removed
  before normalization.\<close>

definition normalized_target :: "pattern \<Rightarrow> bool \<Rightarrow> string \<Rightarrow> string" where
  "normalized_target normalization_pattern filename_mode target_name =
     (if filename_mode
      then normalize_string (remove_extension target_name) normalization_pattern
      else normalize_string target_name normalization_pattern)"

text \<open>
  The inner loop over \<^verbatim>\<open>target_list\<close>, with the two loop variables
  \<open>(best_match, highest_score)\<close> as state. An exception of \<^verbatim>\<open>get_score\<close> leaves the loop.
\<close>

fun target_loop ::
  "backends \<Rightarrow> string \<Rightarrow> string \<Rightarrow> real \<Rightarrow> pattern \<Rightarrow> bool \<Rightarrow> string \<Rightarrow>
   string list \<Rightarrow> string option \<times> real \<Rightarrow> error + (string option \<times> real)" where
  "target_loop bk library match_method similarity_threshold pat filename_mode normalized_name
     [] st = Inr st"
| "target_loop bk library match_method similarity_threshold pat filename_mode normalized_name
     (target_name # rest) (best_match, highest_score) =
     (if filename_mode \<and> \<not> is_valid_filename target_name ''windows''
      then target_loop bk library match_method similarity_threshold pat filename_mode
             normalized_name rest (best_match, highest_score)
      else
        (case get_score bk library match_method normalized_name
                (normalized_target pat filename_mode target_name) of
           Inl e \<Rightarrow> Inl e
         | Inr score \<Rightarrow>
             if score > highest_score
             then target_loop bk library match_method similarity_threshold pat filename_mode
                    normalized_name rest
                    (if score \<ge> similarity_threshold then Some target_name else best_match, score)
             else target_loop bk library match_method similarity_threshold pat filename_mode
                    normalized_name rest (best_match, highest_score)))"

text \<open>Python's truth value of \<^verbatim>\<open>best_match\<close>: \<^verbatim>\<open>None\<close> and the empty string are false.\<close>

fun truthy :: "string option \<Rightarrow> bool" where
  "truthy None = False"
| "truthy (Some s) = (s \<noteq> [])"

text \<open>The outer loop over \<^verbatim>\<open>base_list\<close>, with the two result lists as state.\<close>

fun base_loop ::
  "backends \<Rightarrow> string list \<Rightarrow> string \<Rightarrow> string \<Rightarrow> real \<Rightarrow> pattern \<Rightarrow> bool \<Rightarrow>
   string list \<Rightarrow> match_record list \<times> string list \<Rightarrow> error + (match_record list \<times> string list)" where
  "base_loop bk target_list library match_method similarity_threshold pat filename_mode
     [] res = Inr res"
| "base_loop bk target_list library match_method similarity_threshold pat filename_mode
     (base_name # rest) (matched_results, unmatched_names) =
     (case target_loop bk library match_method similarity_threshold pat filename_mode
             (normalize_string base_name pat) target_list (None, 0) of
        Inl e \<Rightarrow> Inl e
      | Inr (best_match, highest_score) \<Rightarrow>
          if truthy best_match
          then base_loop bk target_list library match_method similarity_threshold pat filename_mode
                 rest (matched_results @ [\<lparr>name = base_name, matched_name = the best_match\<rparr>],
                       unmatched_names)
          else base_loop bk target_list library match_method similarity_threshold pat filename_mode
                 rest (matched_results, unmatched_names @ [base_name]))"

definition string_matching ::
  "backends \<Rightarrow> string list \<Rightarrow> string list \<Rightarrow> string \<Rightarrow> string \<Rightarrow> real \<Rightarrow> pattern \<Rightarrow> bool \<Rightarrow>
   error + (match_record list \<times> string list)" where
  "string_matching bk base_list target_list library match_method similarity_threshold
     normalization_pattern filename_mode =
     base_loop bk target_list library match_method similarity_threshold normalization_pattern
       filename_mode base_list ([], [])"

subsection \<open>Notions used in the statements\<close>

text \<open>
  The configuration check of \<^verbatim>\<open>get_score\<close> and the error it raises; the targets the inner
  loop scores (in filename mode only the valid Windows file names); the score of a base name
  against a target as \<^verbatim>\<open>string_matching\<close> computes it; and the inner loop over a list of
  targets whose scores are given by a function (the loop of \<open>target_loop\<close> once the
  configuration is known to be valid).
\<close>

definition valid_config :: "string \<Rightarrow> string \<Rightarrow> bool" where
  "valid_config library match_method =
     (library \<in> set valid_libraries \<and> match_method \<in> set valid_methods)"

definition config_error :: "string \<Rightarrow> string \<Rightarrow> error" where
  "config_error library match_method =
     (if library \<notin> set valid_libraries then UnknownLibrary library
      else UnsupportedMethod match_method)"

definition considered :: "bool \<Rightarrow> string list \<Rightarrow> string list" where
  "considered filename_mode target_list =
     filter (\<lambda>t. \<not> filename_mode \<or> is_valid_filename t ''windows'') target_list"

definition pair_score ::
  "backends \<Rightarrow> string \<Rightarrow> string \<Rightarrow> pattern \<Rightarrow> bool \<Rightarrow> string \<Rightarrow> string \<Rightarrow> error + real" where
  "pair_score bk library match_method pat filename_mode base_name target_name =
     get_score bk library match_method (normalize_string base_name pat)
       (normalized_target pat filename_mode target_name)"

definition score_of :: "backends \<Rightarrow> string \<Rightarrow> string \<Rightarrow> string \<Rightarrow> string \<Rightarrow> real" where
  "score_of bk library match_method a b =
     (case get_score bk library match_method a b of Inr s \<Rightarrow> s | Inl e \<Rightarrow> 0)"

fun scan :: "real \<Rightarrow> (string \<Rightarrow> real) \<Rightarrow> string list \<Rightarrow> string option \<times> real \<Rightarrow> string option \<times> real" where
  "scan thr sc [] st = st"
| "scan thr sc (t # ts) (best, hi) =
     (if sc t > hi then scan thr sc ts (if sc t \<ge> thr then Some t else best, sc t)
      else scan thr sc ts (best, hi))"


text \<open>
  The result of the inner loop for one base name, whether the outer loop files the base name
  under the matches, and the record it appends then.
\<close>

definition best_for ::
  "backends \<Rightarrow> string list \<Rightarrow> string \<Rightarrow> string \<Rightarrow> real \<Rightarrow> pattern \<Rightarrow> bool \<Rightarrow> string \<Rightarrow>
   error + (string option \<times> real)" where
  "best_for bk target_list library match_method thr pat filename_mode base_name =
     target_loop bk library match_method thr pat filename_mode
       (normalize_string base_name pat) target_list (None, 0)"

definition is_matched ::
  "backends \<Rightarrow> string list \<Rightarrow> string \<Rightarrow> string \<Rightarrow> real \<Rightarrow> pattern \<Rightarrow> bool \<Rightarrow> string \<Rightarrow> bool" where
  "is_matched bk target_list library match_method thr pat filename_mode base_name =
     (case best_for bk target_list library match_method thr pat filename_mode base_name of
        Inl e \<Rightarrow> False
      | Inr (best_match, highest_score) \<Rightarrow> truthy best_match)"

definition match_of ::
  "backends \<Rightarrow> string list \<Rightarrow> string \<Rightarrow> string \<Rightarrow> real \<Rightarrow> pattern \<Rightarrow> bool \<Rightarrow> string \<Rightarrow> match_record" where
  "match_of bk target_list library match_method thr pat filename_mode base_name =
     \<lparr>name = base_name,
      matched_name =
        (case best_for bk target_list library match_method thr pat filename_mode base_name of
           Inl e \<Rightarrow> []
         | Inr (best_match, highest_score) \<Rightarrow> the best_match)\<rparr>"

text \<open>
  A value for the external similarity functions, for closed examples. Every example that
  uses it either runs the \<^verbatim>\<open>quick_ratio\<close> branch of \<^verbatim>\<open>get_score\<close> or fails
  the configuration check, so none of its five functions is ever applied.
\<close>

definition unused_backends :: backends where
  "unused_backends =
     \<lparr>rapidfuzz_ratio = (\<lambda>a b. 0), rapidfuzz_partial_ratio = (\<lambda>a b. 0),
      thefuzz_ratio = (\<lambda>a b. 0), thefuzz_partial_ratio = (\<lambda>a b. 0),
      difflib_ratio = (\<lambda>a b. 0)\<rparr>"

text \<open>
  In the loop of \<open>quick_matches\<close>: how many occurrences of a character are still available
  for a match.
\<close>

definition still_available :: "(char \<Rightarrow> int) \<Rightarrow> (char \<rightharpoonup> int) \<Rightarrow> char \<Rightarrow> nat" where
  "still_available f av c = nat (case av c of Some n \<Rightarrow> n | None \<Rightarrow> f c)"

subsection \<open>The specification's wording, for comparison\<close>

text \<open>
  The specification's extension rule: everything from the last \<^verbatim>\<open>'.'\<close> on is removed,
  unless the string has no \<^verbatim>\<open>'.'\<close> (\<open>rfind\<close> gives -1) or its only \<^verbatim>\<open>'.'\<close> is
  the leading character (\<open>rfind\<close> gives 0).
\<close>

definition spec_remove_extension :: "string \<Rightarrow> string" where
  "spec_remove_extension s =
     (let i = rfind s CHR ''.'' in if i \<le> 0 then s else take (nat i) s)"

text \<open>
  The specification's scores. The full ratio is
  \<^verbatim>\<open>100 * (1 - distance / (len(a) + len(b)))\<close> with the insertion/deletion edit distance
  of the classic Levenshtein ratio, and 100 for two empty strings. The partial ratio is the
  best full ratio of the shorter string against the contiguous substrings of the longer
  string that have the shorter string's length.
\<close>

fun indel :: "string \<Rightarrow> string \<Rightarrow> nat" where
  "indel [] ys = length ys"
| "indel xs [] = length xs"
| "indel (x # xs) (y # ys) =
     (if x = y then indel xs ys else 1 + min (indel xs (y # ys)) (indel (x # xs) ys))"

definition spec_full_ratio :: "string \<Rightarrow> string \<Rightarrow> real" where
  "spec_full_ratio a b =
     (if length a + length b = 0 then 100
      else 100 * (1 - real (indel a b) / real (length a + length b)))"

definition windows :: "nat \<Rightarrow> string \<Rightarrow> string list" where
  "windows n s = map (\<lambda>i. take n (drop i s)) [0 ..< length s - n + 1]"

definition spec_partial_ratio :: "string \<Rightarrow> string \<Rightarrow> real" where
  "spec_partial_ratio a b =
     (let (s, l) = (if length a \<le> length b then (a, b) else (b, a)) in
      fold max (map (spec_full_ratio s) (windows (length s) l)) 0)"

section \<open>Properties\<close>

subsection \<open>Normalization\<close>

lemma filter_dropWhile_not: "filter P (dropWhile (\<lambda>x. \<not> P x) xs) = filter P xs"
  by (induction xs) auto

lemma re_sub_empty_filter: "re_sub_empty p s = filter (retained p) s"
  by (induction p s rule: re_sub_empty.induct) (auto simp: filter_dropWhile_not)

lemma lower_char_idem: "lower_char (lower_char c) = lower_char c"
proof -
  let ?n = "of_char c :: nat"
  have lt: "?n < 256" by simp
  show ?thesis
  proof (cases "(65 \<le> ?n \<and> ?n \<le> 90) \<or> (192 \<le> ?n \<and> ?n \<le> 222 \<and> ?n \<noteq> 215)")
    case True
    then have eq: "lower_char c = char_of (?n + 32)" by (simp add: lower_char_def)
    from True have "(of_char (char_of (?n + 32) :: char) :: nat) = ?n + 32"
      by auto
    with True show ?thesis unfolding eq by (auto simp: lower_char_def Let_def)
  next
    case False
    then have "lower_char c = c" by (auto simp: lower_char_def Let_def)
    then show ?thesis by simp
  qed
qed

lemma lower_idem: "lower (lower s) = lower s"
  by (simp add: lower_def lower_char_idem)

lemma lower_filter: "lower (filter P (lower s)) = filter P (lower s)"
  by (induction s) (auto simp: lower_def lower_char_idem)


text \<open>
  C6. Normalization is idempotent: for every string and every character-retention
  pattern, normalizing a normalized string gives the same string again.
\<close>

theorem normalize_string_idempotent:
  "normalize_string (normalize_string s p) p = normalize_string s p"
  by (simp add: normalize_string_def re_sub_empty_filter lower_filter)


subsection \<open>The inner loop\<close>

lemma get_score_invalid:
  "\<not> valid_config library match_method \<Longrightarrow>
   get_score bk library match_method a b = Inl (config_error library match_method)"
  by (auto simp: get_score_def valid_config_def config_error_def)

lemma get_score_valid:
  "valid_config library match_method \<Longrightarrow>
   get_score bk library match_method a b = Inr (score_of bk library match_method a b)"
  by (auto simp: get_score_def valid_config_def score_of_def)

lemma target_loop_valid:
  "valid_config library match_method \<Longrightarrow>
   target_loop bk library match_method thr pat fm nb ts st =
     Inr (scan thr (\<lambda>t. score_of bk library match_method nb (normalized_target pat fm t))
            (considered fm ts) st)"
proof (induction ts arbitrary: st)
  case Nil
  then show ?case by (simp add: considered_def)
next
  case (Cons t ts)
  obtain b h where st: "st = (b, h)" by (cases st)
  from Cons show ?case
    by (cases fm) (simp_all add: st considered_def get_score_valid)
qed

lemma target_loop_invalid:
  "\<not> valid_config library match_method \<Longrightarrow>
   target_loop bk library match_method thr pat fm nb ts st =
     (if considered fm ts = [] then Inr st else Inl (config_error library match_method))"
proof (induction ts arbitrary: st)
  case Nil
  then show ?case by (simp add: considered_def)
next
  case (Cons t ts)
  obtain b h where st: "st = (b, h)" by (cases st)
  from Cons show ?case
    by (cases fm) (simp_all add: st considered_def get_score_invalid)
qed


lemma scan_char:
  "scan thr sc ts (b, h) = (b', h') \<Longrightarrow>
   h \<le> h' \<and> (\<forall>t\<in>set ts. sc t \<le> h') \<and>
   (if h < h' \<and> thr \<le> h'
    then \<exists>pre t post. ts = pre @ t # post \<and> b' = Some t \<and> sc t = h' \<and> (\<forall>x\<in>set pre. sc x < h')
    else b' = b)"
proof (induction ts arbitrary: b h)
  case Nil
  then show ?case by simp
next
  case (Cons t ts)
  show ?case
  proof (cases "h < sc t")
    case True
    let ?b1 = "if thr \<le> sc t then Some t else b"
    from Cons.prems True have run: "scan thr sc ts (?b1, sc t) = (b', h')" by simp
    note ih = Cons.IH [OF run]
    from ih have le: "sc t \<le> h'" and all: "\<forall>x\<in>set ts. sc x \<le> h'" by simp_all
    have bound: "h \<le> h' \<and> (\<forall>x\<in>set (t # ts). sc x \<le> h')"
      using le all True by auto
    have hlt: "h < h'" using le True by simp
    show ?thesis
    proof (cases "thr \<le> h'")
      case thr: True
      have "\<exists>pre x post. t # ts = pre @ x # post \<and> b' = Some x \<and> sc x = h' \<and> (\<forall>y\<in>set pre. sc y < h')"
      proof (cases "sc t < h'")
        case True
        with ih thr obtain pre x post where
          "ts = pre @ x # post" "b' = Some x" "sc x = h'" "\<forall>y\<in>set pre. sc y < h'" by auto
        with True have "t # ts = (t # pre) @ x # post \<and> b' = Some x \<and> sc x = h' \<and> (\<forall>y\<in>set (t # pre). sc y < h')"
          by simp
        then show ?thesis by blast
      next
        case False
        with le have eq: "sc t = h'" by simp
        with ih have "b' = ?b1" by simp
        with eq thr have "t # ts = [] @ t # ts \<and> b' = Some t \<and> sc t = h' \<and> (\<forall>y\<in>set []. sc y < h')"
          by simp
        then show ?thesis by blast
      qed
      with bound hlt thr show ?thesis by simp
    next
      case nthr: False
      with ih have "b' = ?b1" by simp
      moreover from nthr le have "\<not> thr \<le> sc t" by simp
      ultimately have "b' = b" by simp
      with bound nthr show ?thesis by simp
    qed
  next
    case False
    with Cons.prems have run: "scan thr sc ts (b, h) = (b', h')" by simp
    note ih = Cons.IH [OF run]
    from ih False have bound: "h \<le> h' \<and> (\<forall>x\<in>set (t # ts). sc x \<le> h')" by auto
    show ?thesis
    proof (cases "h < h' \<and> thr \<le> h'")
      case True
      with ih obtain pre x post where
        "ts = pre @ x # post" "b' = Some x" "sc x = h'" "\<forall>y\<in>set pre. sc y < h'" by auto
      with True False have "t # ts = (t # pre) @ x # post \<and> b' = Some x \<and> sc x = h' \<and> (\<forall>y\<in>set (t # pre). sc y < h')"
        by simp
      then have "\<exists>pre x post. t # ts = pre @ x # post \<and> b' = Some x \<and> sc x = h' \<and> (\<forall>y\<in>set pre. sc y < h')"
        by blast
      with bound True show ?thesis by simp
    next
      case F2: False
      with ih have "b' = b" by auto
      with bound F2 show ?thesis by auto
    qed
  qed
qed

lemma scan_attained:
  "scan thr sc ts (b, h) = (b', h') \<Longrightarrow> h' = h \<or> h' \<in> sc ` set ts"
proof (induction ts arbitrary: b h)
  case Nil
  then show ?case by simp
next
  case (Cons t ts)
  show ?case
  proof (cases "h < sc t")
    case True
    with Cons.prems have "scan thr sc ts (if thr \<le> sc t then Some t else b, sc t) = (b', h')" by simp
    from Cons.IH [OF this] show ?thesis by auto
  next
    case False
    with Cons.prems have "scan thr sc ts (b, h) = (b', h')" by simp
    from Cons.IH [OF this] show ?thesis by auto
  qed
qed

subsection \<open>The outer loop\<close>

lemma base_loop_Inr:
  "base_loop bk ts lib meth thr pat fm bs (ms, us) = Inr (ms', us') \<Longrightarrow>
   ms' = ms @ map (match_of bk ts lib meth thr pat fm) (filter (is_matched bk ts lib meth thr pat fm) bs) \<and>
   us' = us @ filter (\<lambda>b. \<not> is_matched bk ts lib meth thr pat fm b) bs"
proof (induction bs arbitrary: ms us)
  case Nil
  then show ?case by simp
next
  case (Cons b bs)
  from Cons.prems obtain bm hs where
    tl: "target_loop bk lib meth thr pat fm (normalize_string b pat) ts (None, 0) = Inr (bm, hs)"
    by (auto split: sum.splits)
  show ?case
  proof (cases "truthy bm")
    case True
    with Cons.prems tl have
      "base_loop bk ts lib meth thr pat fm bs (ms @ [\<lparr>name = b, matched_name = the bm\<rparr>], us) = Inr (ms', us')"
      by simp
    from Cons.IH [OF this] True tl show ?thesis
      by (simp add: is_matched_def match_of_def best_for_def)
  next
    case False
    with Cons.prems tl have
      "base_loop bk ts lib meth thr pat fm bs (ms, us @ [b]) = Inr (ms', us')"
      by simp
    from Cons.IH [OF this] False tl show ?thesis
      by (simp add: is_matched_def match_of_def best_for_def)
  qed
qed

lemma base_loop_valid:
  "valid_config lib meth \<Longrightarrow> \<exists>res. base_loop bk ts lib meth thr pat fm bs acc = Inr res"
proof (induction bs arbitrary: acc)
  case Nil
  then show ?case by simp
next
  case (Cons b bs)
  obtain ms us where acc: "acc = (ms, us)" by (cases acc)
  obtain bm hs where
    "scan thr (\<lambda>t. score_of bk lib meth (normalize_string b pat) (normalized_target pat fm t))
       (considered fm ts) (None, 0) = (bm, hs)" by fastforce
  with Cons.prems have
    tl: "target_loop bk lib meth thr pat fm (normalize_string b pat) ts (None, 0) = Inr (bm, hs)"
    by (simp add: target_loop_valid)
  from Cons.IH [OF Cons.prems] show ?case
    by (simp add: acc tl)
qed

lemma base_loop_invalid:
  "\<not> valid_config lib meth \<Longrightarrow>
   base_loop bk ts lib meth thr pat fm bs (ms, us) =
     (if bs = [] \<or> considered fm ts = [] then Inr (ms, us @ bs)
      else Inl (config_error lib meth))"
proof (induction bs arbitrary: us)
  case Nil
  then show ?case by simp
next
  case (Cons b bs)
  from Cons.IH [OF Cons.prems] Cons.prems show ?case
    by (simp add: target_loop_invalid)
qed

lemma target_loop_mem:
  "target_loop bk lib meth thr pat fm nb ts (b, h) = Inr (b', h') \<Longrightarrow>
   b' = b \<or> (\<exists>t\<in>set ts. b' = Some t)"
proof (induction ts arbitrary: b h)
  case Nil
  then show ?case by simp
next
  case (Cons t ts)
  show ?case
  proof (cases "fm \<and> \<not> is_valid_filename t ''windows''")
    case True
    with Cons.prems have "target_loop bk lib meth thr pat fm nb ts (b, h) = Inr (b', h')" by simp
    from Cons.IH [OF this] show ?thesis by auto
  next
    case False
    with Cons.prems obtain s where
      gs: "get_score bk lib meth nb (normalized_target pat fm t) = Inr s"
      by (auto split: sum.splits)
    show ?thesis
    proof (cases "s > h")
      case True
      with Cons.prems False gs have
        "target_loop bk lib meth thr pat fm nb ts (if s \<ge> thr then Some t else b, s) = Inr (b', h')"
        by simp
      from Cons.IH [OF this] show ?thesis by (auto split: if_splits)
    next
      case F: False
      with Cons.prems False gs have "target_loop bk lib meth thr pat fm nb ts (b, h) = Inr (b', h')"
        by simp
      from Cons.IH [OF this] show ?thesis by auto
    qed
  qed
qed


lemma name_match_of: "name (match_of bk ts lib meth thr pat fm b) = b"
  by (simp add: match_of_def)

lemma string_matching_shape:
  "string_matching bk bs ts lib meth thr pat fm = Inr (ms, us) \<Longrightarrow>
   ms = map (match_of bk ts lib meth thr pat fm) (filter (is_matched bk ts lib meth thr pat fm) bs) \<and>
   us = filter (\<lambda>b. \<not> is_matched bk ts lib meth thr pat fm b) bs"
  using base_loop_Inr [of bk ts lib meth thr pat fm bs "[]" "[]" ms us]
  by (simp add: string_matching_def)


text \<open>
  C2. Whenever \<^verbatim>\<open>string_matching\<close> returns, the two output lists partition
  \<^verbatim>\<open>base_list\<close>: the names of the match records together with the unmatched names are
  the base names with their multiplicities, no name is in both lists, and the two lengths
  add up to the length of \<^verbatim>\<open>base_list\<close>.
\<close>

theorem string_matching_partition:
  assumes "string_matching bk base_list target_list library match_method thr pat fm = Inr (ms, us)"
  shows "length ms + length us = length base_list \<and>
         mset (map name ms) + mset us = mset base_list \<and>
         set (map name ms) \<inter> set us = {}"
proof -
  let ?P = "is_matched bk target_list library match_method thr pat fm"
  from string_matching_shape [OF assms] have
    ms: "map name ms = filter ?P base_list" and us: "us = filter (\<lambda>b. \<not> ?P b) base_list"
    by (simp_all add: o_def name_match_of)
  have "length (map name ms) + length us = length base_list"
    unfolding ms us by (rule sum_length_filter_compl)
  then have len: "length ms + length us = length base_list" by simp
  have ms': "mset (map name ms) + mset us = mset base_list"
    unfolding ms us by (induction base_list) simp_all
  have dj: "set (map name ms) \<inter> set us = {}"
    unfolding ms us by auto
  from len ms' dj show ?thesis by blast
qed


theorem string_matching_partition_witness:
  "string_matching unused_backends [''Mario'', ''zelda''] [''mario.nes'', ''a/zelda'']
     ''difflib'' ''partial'' 80 default_pattern True =
     Inr ([\<lparr>name = ''Mario'', matched_name = ''mario.nes''\<rparr>], [''zelda'']) \<and>
   length [\<lparr>name = ''Mario'', matched_name = ''mario.nes''\<rparr>] + length [''zelda''] =
     length [''Mario'', ''zelda''] \<and>
   mset (map name [\<lparr>name = ''Mario'', matched_name = ''mario.nes''\<rparr>]) + mset [''zelda''] =
     mset [''Mario'', ''zelda''] \<and>
   set (map name [\<lparr>name = ''Mario'', matched_name = ''mario.nes''\<rparr>]) \<inter> set [''zelda''] = {}"
proof -
  have run: "string_matching unused_backends [''Mario'', ''zelda''] [''mario.nes'', ''a/zelda'']
     ''difflib'' ''partial'' 80 default_pattern True =
     Inr ([\<lparr>name = ''Mario'', matched_name = ''mario.nes''\<rparr>], [''zelda''])"
    by code_simp
  from string_matching_partition [OF run] run show ?thesis by blast
qed

subsection \<open>What the matcher decides for one base name\<close>

lemma first_split_unique:
  "pre @ t # post = pre' @ t' # post' \<Longrightarrow> t \<notin> set pre' \<Longrightarrow> t' \<notin> set pre \<Longrightarrow>
   pre = pre' \<and> t = t'"
proof (induction pre arbitrary: pre')
  case Nil
  then show ?case by (cases pre') auto
next
  case (Cons x xs)
  then show ?case by (cases pre') auto
qed

lemma best_for_Some_mem:
  "best_for bk ts lib meth thr pat fm b = Inr (Some t, hs) \<Longrightarrow> t \<in> set ts"
  using target_loop_mem [of bk lib meth thr pat fm "normalize_string b pat" ts None 0 "Some t" hs]
  by (auto simp: best_for_def)

lemma record_in_matches:
  assumes "string_matching bk bs ts lib meth thr pat fm = Inr (ms, us)" and "r \<in> set ms"
  shows "\<exists>t hs. name r \<in> set bs \<and> t \<noteq> [] \<and> matched_name r = t \<and>
           best_for bk ts lib meth thr pat fm (name r) = Inr (Some t, hs)"
proof -
  from string_matching_shape [OF assms(1)] assms(2) obtain b where
    b: "b \<in> set bs" "is_matched bk ts lib meth thr pat fm b"
       "r = match_of bk ts lib meth thr pat fm b"
    by auto
  from b(2) obtain bm hs where
    bf: "best_for bk ts lib meth thr pat fm b = Inr (bm, hs)" and tr: "truthy bm"
    by (auto simp: is_matched_def split: sum.splits)
  from tr obtain t where t: "bm = Some t" "t \<noteq> []" by (cases bm) auto
  from b(3) bf t have "name r = b" "matched_name r = t" by (simp_all add: match_of_def)
  with b(1) bf t show ?thesis by simp
qed

lemma best_for_invalid:
  "\<not> valid_config lib meth \<Longrightarrow> best_for bk ts lib meth thr pat fm b \<noteq> Inr (Some t, hs)"
  by (simp add: best_for_def target_loop_invalid)

lemma best_for_Some:
  assumes "best_for bk ts lib meth thr pat fm b = Inr (Some t, hs)"
  defines "sc \<equiv> \<lambda>x. score_of bk lib meth (normalize_string b pat) (normalized_target pat fm x)"
  shows "valid_config lib meth \<and> 0 < hs \<and> thr \<le> hs \<and>
         (\<exists>pre post. considered fm ts = pre @ t # post \<and> sc t = hs \<and>
            (\<forall>x\<in>set pre. sc x < hs) \<and> (\<forall>x\<in>set post. sc x \<le> hs))"
proof -
  have v: "valid_config lib meth" using assms(1) best_for_invalid by blast
  with assms(1) have run: "scan thr sc (considered fm ts) (None, 0) = (Some t, hs)"
    by (simp add: best_for_def target_loop_valid sc_def)
  note ch = scan_char [OF run]
  from ch have cond: "0 < hs \<and> thr \<le> hs" by (auto split: if_splits)
  with ch obtain pre post where
    sp: "considered fm ts = pre @ t # post" "sc t = hs" "\<forall>x\<in>set pre. sc x < hs"
    by auto
  from ch sp(1) have "\<forall>x\<in>set post. sc x \<le> hs" by simp
  with v cond sp show ?thesis by blast
qed

lemma best_for_valid:
  assumes "valid_config lib meth"
  shows "\<exists>bm hs. best_for bk ts lib meth thr pat fm b = Inr (bm, hs)"
proof -
  obtain bm hs where
    "scan thr (\<lambda>t. score_of bk lib meth (normalize_string b pat) (normalized_target pat fm t))
       (considered fm ts) (None, 0) = (bm, hs)" by fastforce
  with assms show ?thesis by (simp add: best_for_def target_loop_valid)
qed

lemma best_for_first_max:
  assumes v: "valid_config lib meth"
      and sp: "considered fm ts = pre @ t # post"
      and pos: "0 < sc t" and thr: "thr \<le> sc t"
      and pre: "\<forall>x\<in>set pre. sc x < sc t" and post: "\<forall>x\<in>set post. sc x \<le> sc t"
      and sc: "sc = (\<lambda>x. score_of bk lib meth (normalize_string b pat) (normalized_target pat fm x))"
  shows "best_for bk ts lib meth thr pat fm b = Inr (Some t, sc t)"
proof -
  obtain bm hs where run: "scan thr sc (considered fm ts) (None, 0) = (bm, hs)" by fastforce
  note ch = scan_char [OF run]
  from ch sp have ge: "sc t \<le> hs" by simp
  from scan_attained [OF run] have "hs = 0 \<or> hs \<in> sc ` set (considered fm ts)" .
  with ge pos have "hs \<in> sc ` set (pre @ t # post)" using sp by auto
  with pre post have le: "hs \<le> sc t" by auto
  with ge have eq: "hs = sc t" by simp
  with ch pos thr obtain pre' t' post' where
    sp': "considered fm ts = pre' @ t' # post'" "bm = Some t'" "sc t' = hs" "\<forall>x\<in>set pre'. sc x < hs"
    by auto
  have "pre' = pre \<and> t' = t"
  proof -
    from sp sp'(1) have e: "pre @ t # post = pre' @ t' # post'" by simp
    have n1: "t \<notin> set pre'" using sp'(4) eq by auto
    have n2: "t' \<notin> set pre" using pre sp'(3) eq by auto
    from first_split_unique [OF e n1 n2] show ?thesis by simp
  qed
  with sp'(2) eq run have "scan thr sc (considered fm ts) (None, 0) = (Some t, sc t)" by simp
  with v show ?thesis by (simp add: best_for_def target_loop_valid sc)
qed


lemma pair_score_valid:
  "valid_config lib meth \<Longrightarrow>
   pair_score bk lib meth pat fm b t =
     Inr (score_of bk lib meth (normalize_string b pat) (normalized_target pat fm t))"
  by (simp add: pair_score_def get_score_valid)

lemma pair_score_Inr:
  "pair_score bk lib meth pat fm b t = Inr s \<Longrightarrow>
   valid_config lib meth \<and>
   score_of bk lib meth (normalize_string b pat) (normalized_target pat fm t) = s"
  by (cases "valid_config lib meth") (simp_all add: pair_score_def get_score_valid get_score_invalid)


lemma string_matching_invalid:
  "\<not> valid_config lib meth \<Longrightarrow>
   string_matching bk bs ts lib meth thr pat fm =
     (if bs = [] \<or> considered fm ts = [] then Inr ([], bs) else Inl (config_error lib meth))"
  by (simp add: string_matching_def base_loop_invalid)

lemma string_matching_valid:
  "valid_config lib meth \<Longrightarrow>
   string_matching bk bs ts lib meth thr pat fm =
     Inr (map (match_of bk ts lib meth thr pat fm) (filter (is_matched bk ts lib meth thr pat fm) bs),
          filter (\<lambda>b. \<not> is_matched bk ts lib meth thr pat fm b) bs)"
proof -
  assume v: "valid_config lib meth"
  from base_loop_valid [OF v, of bk ts thr pat fm bs "([], [])"] obtain ms us where
    r: "string_matching bk bs ts lib meth thr pat fm = Inr (ms, us)"
    by (auto simp: string_matching_def)
  from string_matching_shape [OF r] r show ?thesis by simp
qed

lemma is_matched_iff:
  fixes bk :: backends and b :: string and pat :: pattern and fm :: bool
  assumes v: "valid_config lib meth"
  defines "sc \<equiv> \<lambda>x. score_of bk lib meth (normalize_string b pat) (normalized_target pat fm x)"
  shows "is_matched bk ts lib meth thr pat fm b \<longleftrightarrow>
         (\<exists>pre t post. considered fm ts = pre @ t # post \<and> 0 < sc t \<and> thr \<le> sc t \<and>
            (\<forall>x\<in>set pre. sc x < sc t) \<and> (\<forall>x\<in>set post. sc x \<le> sc t) \<and> t \<noteq> [])"
proof
  assume "is_matched bk ts lib meth thr pat fm b"
  then obtain bm hs where
    bf: "best_for bk ts lib meth thr pat fm b = Inr (bm, hs)" and tr: "truthy bm"
    by (auto simp: is_matched_def split: sum.splits)
  from tr obtain t where t: "bm = Some t" "t \<noteq> []" by (cases bm) auto
  from bf t have bf': "best_for bk ts lib meth thr pat fm b = Inr (Some t, hs)" by simp
  from best_for_Some [OF bf'] obtain pre post where
    "0 < hs" "thr \<le> hs" "considered fm ts = pre @ t # post" "sc t = hs"
    "\<forall>x\<in>set pre. sc x < hs" "\<forall>x\<in>set post. sc x \<le> hs"
    unfolding sc_def by blast
  with t(2) have "considered fm ts = pre @ t # post \<and> 0 < sc t \<and> thr \<le> sc t \<and>
            (\<forall>x\<in>set pre. sc x < sc t) \<and> (\<forall>x\<in>set post. sc x \<le> sc t) \<and> t \<noteq> []"
    by simp
  then show "\<exists>pre t post. considered fm ts = pre @ t # post \<and> 0 < sc t \<and> thr \<le> sc t \<and>
            (\<forall>x\<in>set pre. sc x < sc t) \<and> (\<forall>x\<in>set post. sc x \<le> sc t) \<and> t \<noteq> []"
    by blast
next
  assume "\<exists>pre t post. considered fm ts = pre @ t # post \<and> 0 < sc t \<and> thr \<le> sc t \<and>
            (\<forall>x\<in>set pre. sc x < sc t) \<and> (\<forall>x\<in>set post. sc x \<le> sc t) \<and> t \<noteq> []"
  then obtain pre t post where
    h: "considered fm ts = pre @ t # post" "0 < sc t" "thr \<le> sc t"
       "\<forall>x\<in>set pre. sc x < sc t" "\<forall>x\<in>set post. sc x \<le> sc t" "t \<noteq> []"
    by blast
  have "sc = (\<lambda>x. score_of bk lib meth (normalize_string b pat) (normalized_target pat fm x))"
    by (simp add: sc_def)
  from best_for_first_max [OF v h(1) h(2) h(3) h(4) h(5) this] h(6)
  show "is_matched bk ts lib meth thr pat fm b" by (simp add: is_matched_def)
qed

subsection \<open>The matched name\<close>

text \<open>
  C8. In every match record that \<^verbatim>\<open>string_matching\<close> produces, the matched name is an
  element of the original \<^verbatim>\<open>target_list\<close>, unchanged; the extension-stripped and
  normalized form (\<open>normalized_target\<close>) is only what is scored.
\<close>

theorem matched_name_verbatim:
  assumes "string_matching bk base_list target_list library match_method thr pat fm = Inr (ms, us)"
      and "r \<in> set ms"
  shows "matched_name r \<in> set target_list"
proof -
  from record_in_matches [OF assms] obtain t hs where
    "matched_name r = t" "best_for bk target_list library match_method thr pat fm (name r) = Inr (Some t, hs)"
    by blast
  then show ?thesis by (simp add: best_for_Some_mem)
qed

theorem matched_name_verbatim_witness:
  "string_matching unused_backends [''Mario''] [''Mario (USA).nes'']
     ''difflib'' ''partial'' 60 default_pattern True =
     Inr ([\<lparr>name = ''Mario'', matched_name = ''Mario (USA).nes''\<rparr>], []) \<and>
   normalized_target default_pattern True ''Mario (USA).nes'' = ''mariousa'' \<and>
   matched_name \<lparr>name = ''Mario'', matched_name = ''Mario (USA).nes''\<rparr> \<in> set [''Mario (USA).nes'']"
proof -
  have run: "string_matching unused_backends [''Mario''] [''Mario (USA).nes'']
     ''difflib'' ''partial'' 60 default_pattern True =
     Inr ([\<lparr>name = ''Mario'', matched_name = ''Mario (USA).nes''\<rparr>], [])"
    by code_simp
  have nt: "normalized_target default_pattern True ''Mario (USA).nes'' = ''mariousa''"
    by code_simp
  have "\<lparr>name = ''Mario'', matched_name = ''Mario (USA).nes''\<rparr> \<in>
        set [\<lparr>name = ''Mario'', matched_name = ''Mario (USA).nes''\<rparr>]" by simp
  from matched_name_verbatim [OF run this] run nt show ?thesis by blast
qed


lemma first_of_two_tied:
  assumes b: "pair_score bk lib meth pat fm b ''b'' = Inr s"
      and a: "pair_score bk lib meth pat fm b ''a'' = Inr s"
      and pos: "0 < s" and thr: "thr \<le> s"
  shows "string_matching bk [b] [''b'', ''a''] lib meth thr pat fm =
           Inr ([\<lparr>name = b, matched_name = ''b''\<rparr>], [])"
proof -
  let ?sc = "\<lambda>x. score_of bk lib meth (normalize_string b pat) (normalized_target pat fm x)"
  from pair_score_Inr [OF b] have v: "valid_config lib meth" and sb: "?sc ''b'' = s" by simp_all
  from pair_score_Inr [OF a] have sa: "?sc ''a'' = s" by simp
  have co: "considered fm [''b'', ''a''] = [] @ ''b'' # [''a'']"
    by (simp add: considered_def is_valid_filename_def re_search_class_def windows_illegal_def)
  have pre: "\<forall>x\<in>set []. ?sc x < ?sc ''b''" by simp
  have post: "\<forall>x\<in>set [''a'']. ?sc x \<le> ?sc ''b''" using sa sb by simp
  from pos sb have pos': "0 < ?sc ''b''" by simp
  from thr sb have thr': "thr \<le> ?sc ''b''" by simp
  from best_for_first_max [OF v co pos' thr' pre post refl] have
    bf: "best_for bk [''b'', ''a''] lib meth thr pat fm b = Inr (Some ''b'', ?sc ''b'')" .
  then have im: "is_matched bk [''b'', ''a''] lib meth thr pat fm b"
    by (simp add: is_matched_def)
  from bf have mo: "match_of bk [''b'', ''a''] lib meth thr pat fm b = \<lparr>name = b, matched_name = ''b''\<rparr>"
    by (simp add: match_of_def)
  from string_matching_valid [OF v, of bk "[b]" "[''b'', ''a'']" thr pat fm] im mo
  show ?thesis by simp
qed

text \<open>
  C3. The running best is replaced on a strictly greater score only, so the matched name of
  a match record is the first among the considered targets of maximal score: every
  considered target before it scores strictly less, every one after it at most as much.
  In particular, when the targets \<^verbatim>\<open>["b", "a"]\<close> both score 100 against a base name
  (and the threshold is at most 100), the matched name is \<^verbatim>\<open>"b"\<close>.
\<close>

theorem first_maximal_target_wins:
  "(string_matching bk base_list target_list library match_method thr pat fm = Inr (ms, us) \<and>
    r \<in> set ms \<longrightarrow>
    (\<exists>pre post s.
       considered fm target_list = pre @ matched_name r # post \<and>
       pair_score bk library match_method pat fm (name r) (matched_name r) = Inr s \<and>
       (\<forall>t\<in>set pre. \<exists>s'. pair_score bk library match_method pat fm (name r) t = Inr s' \<and> s' < s) \<and>
       (\<forall>t\<in>set post. \<exists>s'. pair_score bk library match_method pat fm (name r) t = Inr s' \<and> s' \<le> s))) \<and>
   (pair_score bk library match_method pat fm b ''b'' = Inr 100 \<and>
    pair_score bk library match_method pat fm b ''a'' = Inr 100 \<and> thr \<le> 100 \<longrightarrow>
    string_matching bk [b] [''b'', ''a''] library match_method thr pat fm =
      Inr ([\<lparr>name = b, matched_name = ''b''\<rparr>], []))"
proof (intro conjI impI)
  assume h: "string_matching bk base_list target_list library match_method thr pat fm = Inr (ms, us) \<and>
    r \<in> set ms"
  then have run: "string_matching bk base_list target_list library match_method thr pat fm = Inr (ms, us)"
    and r: "r \<in> set ms" by simp_all
  from record_in_matches [OF run r] obtain t hs where
    t: "matched_name r = t"
    and bf: "best_for bk target_list library match_method thr pat fm (name r) = Inr (Some t, hs)"
    by blast
  let ?sc = "\<lambda>x. score_of bk library match_method (normalize_string (name r) pat)
                   (normalized_target pat fm x)"
  from best_for_Some [OF bf] obtain pre post where
    v: "valid_config library match_method"
    and sp: "considered fm target_list = pre @ t # post" "?sc t = hs"
            "\<forall>x\<in>set pre. ?sc x < hs" "\<forall>x\<in>set post. ?sc x \<le> hs"
    by blast
  have ps: "\<And>x. pair_score bk library match_method pat fm (name r) x = Inr (?sc x)"
    using v by (simp add: pair_score_valid)
  from sp have
    "considered fm target_list = pre @ matched_name r # post \<and>
     pair_score bk library match_method pat fm (name r) (matched_name r) = Inr hs \<and>
     (\<forall>x\<in>set pre. \<exists>s'. pair_score bk library match_method pat fm (name r) x = Inr s' \<and> s' < hs) \<and>
     (\<forall>x\<in>set post. \<exists>s'. pair_score bk library match_method pat fm (name r) x = Inr s' \<and> s' \<le> hs)"
    by (simp add: ps t)
  then show "\<exists>pre post s.
       considered fm target_list = pre @ matched_name r # post \<and>
       pair_score bk library match_method pat fm (name r) (matched_name r) = Inr s \<and>
       (\<forall>t\<in>set pre. \<exists>s'. pair_score bk library match_method pat fm (name r) t = Inr s' \<and> s' < s) \<and>
       (\<forall>t\<in>set post. \<exists>s'. pair_score bk library match_method pat fm (name r) t = Inr s' \<and> s' \<le> s)"
    by blast
next
  assume h: "pair_score bk library match_method pat fm b ''b'' = Inr 100 \<and>
    pair_score bk library match_method pat fm b ''a'' = Inr 100 \<and> thr \<le> 100"
  then have b: "pair_score bk library match_method pat fm b ''b'' = Inr 100"
    and a: "pair_score bk library match_method pat fm b ''a'' = Inr 100"
    and thr: "thr \<le> 100" by simp_all
  have pos: "(0::real) < 100" by simp
  from first_of_two_tied [OF b a pos thr]
  show "string_matching bk [b] [''b'', ''a''] library match_method thr pat fm =
      Inr ([\<lparr>name = b, matched_name = ''b''\<rparr>], [])" .
qed

theorem first_maximal_target_wins_witness:
  "pair_score unused_backends ''difflib'' ''partial'' (NegClassPlus (\<lambda>c. c \<in> set ''0123456789''))
     True ''x'' ''b'' = Inr 100 \<and>
   pair_score unused_backends ''difflib'' ''partial'' (NegClassPlus (\<lambda>c. c \<in> set ''0123456789''))
     True ''x'' ''a'' = Inr 100 \<and>
   (80::real) \<le> 100 \<and>
   string_matching unused_backends [''x''] [''b'', ''a''] ''difflib'' ''partial'' 80
     (NegClassPlus (\<lambda>c. c \<in> set ''0123456789'')) True =
     Inr ([\<lparr>name = ''x'', matched_name = ''b''\<rparr>], []) \<and>
   \<lparr>name = ''x'', matched_name = ''b''\<rparr> \<in> set [\<lparr>name = ''x'', matched_name = ''b''\<rparr>] \<and>
   (\<exists>pre post s.
      considered True [''b'', ''a''] = pre @ ''b'' # post \<and>
      pair_score unused_backends ''difflib'' ''partial'' (NegClassPlus (\<lambda>c. c \<in> set ''0123456789''))
        True ''x'' ''b'' = Inr s \<and>
      (\<forall>t\<in>set pre. \<exists>s'. pair_score unused_backends ''difflib'' ''partial''
          (NegClassPlus (\<lambda>c. c \<in> set ''0123456789'')) True ''x'' t = Inr s' \<and> s' < s) \<and>
      (\<forall>t\<in>set post. \<exists>s'. pair_score unused_backends ''difflib'' ''partial''
          (NegClassPlus (\<lambda>c. c \<in> set ''0123456789'')) True ''x'' t = Inr s' \<and> s' \<le> s))"
proof -
  let ?p = "NegClassPlus (\<lambda>c. c \<in> set ''0123456789'')"
  let ?r = "\<lparr>name = ''x'', matched_name = ''b''\<rparr>"
  have sb: "pair_score unused_backends ''difflib'' ''partial'' ?p True ''x'' ''b'' = Inr 100"
    by code_simp
  have sa: "pair_score unused_backends ''difflib'' ''partial'' ?p True ''x'' ''a'' = Inr 100"
    by code_simp
  have le: "(80::real) \<le> 100" by simp
  note th = first_maximal_target_wins [of unused_backends "[''x'']" "[''b'', ''a'']" "''difflib''"
      "''partial''" 80 ?p True "[?r]" "[]" ?r "''x''"]
  from th sb sa le have run:
    "string_matching unused_backends [''x''] [''b'', ''a''] ''difflib'' ''partial'' 80 ?p True =
       Inr ([?r], [])"
    by blast
  have mem: "?r \<in> set [?r]" by simp
  from th run mem have
    "\<exists>pre post s.
      considered True [''b'', ''a''] = pre @ matched_name ?r # post \<and>
      pair_score unused_backends ''difflib'' ''partial'' ?p True (name ?r) (matched_name ?r) = Inr s \<and>
      (\<forall>t\<in>set pre. \<exists>s'. pair_score unused_backends ''difflib'' ''partial'' ?p True (name ?r) t = Inr s' \<and> s' < s) \<and>
      (\<forall>t\<in>set post. \<exists>s'. pair_score unused_backends ''difflib'' ''partial'' ?p True (name ?r) t = Inr s' \<and> s' \<le> s)"
    by blast
  then have ex:
    "\<exists>pre post s.
      considered True [''b'', ''a''] = pre @ ''b'' # post \<and>
      pair_score unused_backends ''difflib'' ''partial'' ?p True ''x'' ''b'' = Inr s \<and>
      (\<forall>t\<in>set pre. \<exists>s'. pair_score unused_backends ''difflib'' ''partial'' ?p True ''x'' t = Inr s' \<and> s' < s) \<and>
      (\<forall>t\<in>set post. \<exists>s'. pair_score unused_backends ''difflib'' ''partial'' ?p True ''x'' t = Inr s' \<and> s' \<le> s)"
    by simp
  from sb sa le run mem ex show ?thesis by blast
qed

subsection \<open>The threshold\<close>

text \<open>
  C4, as stated, fails when the threshold is 0: a pair that scores exactly 0 equals the
  threshold, but the running maximum starts at 0 and is replaced on a strictly greater score
  only, so the pair is not accepted and the base name is reported unmatched.
\<close>

theorem threshold_zero_score_zero_counterexample:
  "pair_score unused_backends ''difflib'' ''partial'' default_pattern True ''a'' ''b'' = Inr 0 \<and>
   string_matching unused_backends [''a''] [''b''] ''difflib'' ''partial'' 0 default_pattern True =
     Inr ([], [''a''])"
  by code_simp

text \<open>
  C4, amended. No pair that scores strictly below the threshold is accepted: every reported
  match scores at least the threshold, and more than 0. The comparison with the threshold is
  inclusive: a non-empty target whose score is exactly the threshold is reported as the match
  of the base name when that score is positive, every considered target before it scores
  strictly less and every considered target after it scores at most as much.
\<close>

theorem threshold_inclusive_on_first_maximum:
  assumes "string_matching bk base_list target_list library match_method thr pat fm = Inr (ms, us)"
  shows "(\<forall>r\<in>set ms. \<exists>s. pair_score bk library match_method pat fm (name r) (matched_name r) = Inr s \<and>
            thr \<le> s \<and> 0 < s) \<and>
         (\<forall>b\<in>set base_list. \<forall>pre t post.
            considered fm target_list = pre @ t # post \<and> t \<noteq> [] \<and> 0 < thr \<and>
            pair_score bk library match_method pat fm b t = Inr thr \<and>
            (\<forall>x\<in>set pre. \<exists>s. pair_score bk library match_method pat fm b x = Inr s \<and> s < thr) \<and>
            (\<forall>x\<in>set post. \<exists>s. pair_score bk library match_method pat fm b x = Inr s \<and> s \<le> thr)
            \<longrightarrow> \<lparr>name = b, matched_name = t\<rparr> \<in> set ms)"
proof (intro conjI ballI allI impI)
  fix r assume r: "r \<in> set ms"
  from record_in_matches [OF assms r] obtain t hs where
    t: "matched_name r = t"
    and bf: "best_for bk target_list library match_method thr pat fm (name r) = Inr (Some t, hs)"
    by blast
  from best_for_Some [OF bf] have
    "valid_config library match_method" "0 < hs" "thr \<le> hs"
    "score_of bk library match_method (normalize_string (name r) pat) (normalized_target pat fm t) = hs"
    by auto
  then have "pair_score bk library match_method pat fm (name r) (matched_name r) = Inr hs \<and>
             thr \<le> hs \<and> 0 < hs"
    by (simp add: pair_score_valid t)
  then show "\<exists>s. pair_score bk library match_method pat fm (name r) (matched_name r) = Inr s \<and>
               thr \<le> s \<and> 0 < s" by blast
next
  fix b pre t post
  assume b: "b \<in> set base_list"
  assume h: "considered fm target_list = pre @ t # post \<and> t \<noteq> [] \<and> 0 < thr \<and>
            pair_score bk library match_method pat fm b t = Inr thr \<and>
            (\<forall>x\<in>set pre. \<exists>s. pair_score bk library match_method pat fm b x = Inr s \<and> s < thr) \<and>
            (\<forall>x\<in>set post. \<exists>s. pair_score bk library match_method pat fm b x = Inr s \<and> s \<le> thr)"
  let ?sc = "\<lambda>x. score_of bk library match_method (normalize_string b pat) (normalized_target pat fm x)"
  from h pair_score_Inr have v: "valid_config library match_method" and st: "?sc t = thr"
    by blast+
  have pre: "\<forall>x\<in>set pre. ?sc x < ?sc t"
    using h v st by (auto simp: pair_score_valid)
  have post: "\<forall>x\<in>set post. ?sc x \<le> ?sc t"
    using h v st by (auto simp: pair_score_valid)
  from h have sp: "considered fm target_list = pre @ t # post" by simp
  from h st have pos: "0 < ?sc t" and thr: "thr \<le> ?sc t" by simp_all
  from best_for_first_max [OF v sp pos thr pre post refl] have
    bf: "best_for bk target_list library match_method thr pat fm b = Inr (Some t, ?sc t)" .
  from h have tne: "t \<noteq> []" by simp
  from bf tne have im: "is_matched bk target_list library match_method thr pat fm b"
    by (simp add: is_matched_def)
  from bf have mo: "match_of bk target_list library match_method thr pat fm b =
      \<lparr>name = b, matched_name = t\<rparr>"
    by (simp add: match_of_def)
  from string_matching_shape [OF assms] b im mo
  show "\<lparr>name = b, matched_name = t\<rparr> \<in> set ms" by force
qed

theorem threshold_inclusive_on_first_maximum_witness:
  "string_matching unused_backends [''ab''] [''ac''] ''difflib'' ''partial'' 50 default_pattern True =
     Inr ([\<lparr>name = ''ab'', matched_name = ''ac''\<rparr>], []) \<and>
   pair_score unused_backends ''difflib'' ''partial'' default_pattern True ''ab'' ''ac'' = Inr 50 \<and>
   considered True [''ac''] = [] @ ''ac'' # [] \<and>
   \<lparr>name = ''ab'', matched_name = ''ac''\<rparr> \<in> set [\<lparr>name = ''ab'', matched_name = ''ac''\<rparr>] \<and>
   (\<exists>s. pair_score unused_backends ''difflib'' ''partial'' default_pattern True
          (name \<lparr>name = ''ab'', matched_name = ''ac''\<rparr>)
          (matched_name \<lparr>name = ''ab'', matched_name = ''ac''\<rparr>) = Inr s \<and> 50 \<le> s \<and> 0 < s)"
proof -
  have run: "string_matching unused_backends [''ab''] [''ac''] ''difflib'' ''partial'' 50
      default_pattern True = Inr ([\<lparr>name = ''ab'', matched_name = ''ac''\<rparr>], [])"
    by code_simp
  have ps: "pair_score unused_backends ''difflib'' ''partial'' default_pattern True ''ab'' ''ac'' = Inr 50"
    by code_simp
  have co: "considered True [''ac''] = [] @ ''ac'' # []" by code_simp
  note th = threshold_inclusive_on_first_maximum [OF run]
  from th have a: "\<exists>s. pair_score unused_backends ''difflib'' ''partial'' default_pattern True
          (name \<lparr>name = ''ab'', matched_name = ''ac''\<rparr>)
          (matched_name \<lparr>name = ''ab'', matched_name = ''ac''\<rparr>) = Inr s \<and> 50 \<le> s \<and> 0 < s"
    by simp
  from th have "\<forall>pre t post.
            considered True [''ac''] = pre @ t # post \<and> t \<noteq> [] \<and> (0::real) < 50 \<and>
            pair_score unused_backends ''difflib'' ''partial'' default_pattern True ''ab'' t = Inr 50 \<and>
            (\<forall>x\<in>set pre. \<exists>s. pair_score unused_backends ''difflib'' ''partial'' default_pattern True ''ab'' x = Inr s \<and> s < 50) \<and>
            (\<forall>x\<in>set post. \<exists>s. pair_score unused_backends ''difflib'' ''partial'' default_pattern True ''ab'' x = Inr s \<and> s \<le> 50)
            \<longrightarrow> \<lparr>name = ''ab'', matched_name = t\<rparr> \<in> set [\<lparr>name = ''ab'', matched_name = ''ac''\<rparr>]"
    by simp
  then have "considered True [''ac''] = [] @ ''ac'' # [] \<and> ''ac'' \<noteq> [] \<and> (0::real) < 50 \<and>
            pair_score unused_backends ''difflib'' ''partial'' default_pattern True ''ab'' ''ac'' = Inr 50 \<and>
            (\<forall>x\<in>set []. \<exists>s. pair_score unused_backends ''difflib'' ''partial'' default_pattern True ''ab'' x = Inr s \<and> s < 50) \<and>
            (\<forall>x\<in>set []. \<exists>s. pair_score unused_backends ''difflib'' ''partial'' default_pattern True ''ab'' x = Inr s \<and> s \<le> 50)
            \<longrightarrow> \<lparr>name = ''ab'', matched_name = ''ac''\<rparr> \<in> set [\<lparr>name = ''ab'', matched_name = ''ac''\<rparr>]"
    by blast
  with co ps have b: "\<lparr>name = ''ab'', matched_name = ''ac''\<rparr> \<in> set [\<lparr>name = ''ab'', matched_name = ''ac''\<rparr>]"
    by simp
  from run ps co a b show ?thesis by blast
qed

subsection \<open>A best target that is the empty string\<close>

text \<open>
  C10. The characterization of the claim is \<open>is_matched_iff\<close> without its last conjunct:
  the outer loop tests the truth value of \<^verbatim>\<open>best_match\<close>, and the empty string is
  false. With the base list \<^verbatim>\<open>[""]\<close> and the target list \<^verbatim>\<open>[""]\<close> the only pair
  scores 100, above the threshold 80, and the base name is still reported unmatched.
\<close>

theorem empty_target_name_reported_unmatched:
  "pair_score bk ''difflib'' ''partial'' default_pattern True '''' '''' = Inr 100 \<and>
   string_matching bk [''''] [''''] ''difflib'' ''partial'' 80 default_pattern True =
     Inr ([], [''''])"
  by code_simp

subsection \<open>Invalid configurations\<close>

text \<open>
  The configuration is checked by \<^verbatim>\<open>get_score\<close> only. Where a pair is scored (the base
  list is not empty and at least one target is considered) the call fails with the
  configuration error, for the library if that is unknown and else for the method, and
  returns no result; the failure does not depend on the similarity functions, which are not
  applied.
\<close>

lemma invalid_configuration_fails_when_scored:
  assumes "\<not> valid_config library match_method"
      and "base_list \<noteq> []" and "considered fm target_list \<noteq> []"
  shows "string_matching bk base_list target_list library match_method thr pat fm =
           Inl (config_error library match_method)"
  using assms by (simp add: string_matching_def base_loop_invalid)

lemma invalid_configuration_fails_when_scored_example:
  "\<not> valid_config ''rapidfuzz'' ''fuzzy'' \<and> [''mario'', ''zelda''] \<noteq> [] \<and>
   considered True [''a/b'', ''mario.nes''] \<noteq> [] \<and>
   string_matching unused_backends [''mario'', ''zelda''] [''a/b'', ''mario.nes''] ''rapidfuzz'' ''fuzzy''
     80 default_pattern True = Inl (UnsupportedMethod ''fuzzy'')"
proof -
  have h1: "\<not> valid_config ''rapidfuzz'' ''fuzzy''" by code_simp
  have h2: "[''mario'', ''zelda''] \<noteq> []" by simp
  have h3: "considered True [''a/b'', ''mario.nes''] \<noteq> []" by code_simp
  have ce: "config_error ''rapidfuzz'' ''fuzzy'' = UnsupportedMethod ''fuzzy''" by code_simp
  from invalid_configuration_fails_when_scored [OF h1 h2 h3, of unused_backends 80 default_pattern]
  have "string_matching unused_backends [''mario'', ''zelda''] [''a/b'', ''mario.nes''] ''rapidfuzz'' ''fuzzy''
     80 default_pattern True = Inl (UnsupportedMethod ''fuzzy'')"
    by (simp add: ce)
  with h1 h2 h3 show ?thesis by blast
qed

text \<open>
  C1. An invalid configuration is to fail with the configuration error whatever the two
  lists contain, empty lists included, as the docstring of \<^verbatim>\<open>match_names_to_filenames\<close>
  says (\<^verbatim>\<open>:raises ValueError: If an invalid library or matching method is provided\<close>).
  The code does so only where a pair is scored. With the unknown library
  \<^verbatim>\<open>'unknown'\<close> and an empty base list, an empty target list, or in filename mode no
  valid target name, no call of \<^verbatim>\<open>get_score\<close> is reached and
  \<^verbatim>\<open>string_matching\<close> returns normally, every base name unmatched.
\<close>

theorem invalid_configuration_silent_without_pair:
  "valid_config ''unknown'' ''exact'' = False \<and>
   string_matching unused_backends [] [''mario.nes''] ''unknown'' ''exact'' 80 default_pattern True =
     Inr ([], []) \<and>
   string_matching unused_backends [''mario''] [] ''unknown'' ''exact'' 80 default_pattern True =
     Inr ([], [''mario'']) \<and>
   string_matching unused_backends [''mario''] [''a/b'', ''what?''] ''unknown'' ''exact'' 80
     default_pattern True = Inr ([], [''mario''])"
  by code_simp

subsection \<open>Valid file names\<close>

text \<open>
  C7. \<^verbatim>\<open>is_valid_filename\<close> is a total function of its two arguments. Under the rule
  \<^verbatim>\<open>'windows'\<close> it is false exactly when the name contains one of the nine characters
  backslash, slash, colon, asterisk, question mark, double quote, less-than, greater-than and
  vertical bar; under the rule \<^verbatim>\<open>'unix'\<close> it is false exactly when the name contains a
  slash or the NUL character.
\<close>

theorem is_valid_filename_rules:
  "is_valid_filename filename ''windows'' =
     (set filename \<inter> {CHR 0x5C, CHR ''/'', CHR '':'', CHR ''*'', CHR ''?'', CHR 0x22,
                        CHR ''<'', CHR ''>'', CHR ''|''} = {}) \<and>
   is_valid_filename filename ''unix'' =
     (CHR ''/'' \<notin> set filename \<and> CHR 0x00 \<notin> set filename)"
  by (auto simp: is_valid_filename_def re_search_class_def windows_illegal_def list_ex_iff)

subsection \<open>Removing the extension\<close>

lemma split_sep_no_slash: "CHR ''/'' \<notin> set s \<Longrightarrow> split_sep s = [s]"
  by (induction s) auto

lemma path_name_no_slash:
  "CHR ''/'' \<notin> set s \<Longrightarrow> s \<noteq> ''.'' \<Longrightarrow> path_name s = s"
  by (cases "s = []") (simp_all add: path_name_def split_sep_no_slash)

lemma rfind_upper: "rfind s c < int (length s)"
  by (induction s) (auto simp: Let_def)

lemma rfind_not_last: "s \<noteq> [] \<Longrightarrow> last s \<noteq> c \<Longrightarrow> rfind s c \<noteq> int (length s) - 1"
proof (induction s)
  case Nil
  then show ?case by simp
next
  case (Cons x xs)
  show ?case
  proof (cases "xs = []")
    case True
    with Cons.prems show ?thesis by simp
  next
    case False
    with Cons have "rfind xs c \<noteq> int (length xs) - 1" by simp
    moreover have "rfind xs c < int (length xs)" by (rule rfind_upper)
    ultimately show ?thesis using False by (auto simp: Let_def)
  qed
qed

lemma remove_extension_agrees:
  assumes "CHR ''/'' \<notin> set s" and "s \<noteq> ''.''" and "s = [] \<or> last s \<noteq> CHR ''.''"
  shows "remove_extension s = spec_remove_extension s"
proof (cases "s = []")
  case True
  then show ?thesis
    by (simp add: remove_extension_def stem_def path_name_def spec_remove_extension_def)
next
  case False
  with assms have nl: "rfind s CHR ''.'' \<noteq> int (length s) - 1" by (simp add: rfind_not_last)
  have up: "rfind s CHR ''.'' < int (length s)" by (rule rfind_upper)
  from assms have pn: "path_name s = s" by (simp add: path_name_no_slash)
  from nl up show ?thesis
    by (auto simp: remove_extension_def stem_def pn spec_remove_extension_def Let_def)
qed

text \<open>
  C5. \<^verbatim>\<open>remove_extension\<close> is \<^verbatim>\<open>Path(filename).stem\<close>. It gives the three results
  of the docstring, and by \<open>remove_extension_agrees\<close> it follows the stated rule on every
  string without a slash that is not \<^verbatim>\<open>"."\<close> and does not end in a dot. Elsewhere it
  differs: \<^verbatim>\<open>"."\<close> becomes the empty string, a trailing dot is kept, and a directory
  part is dropped even when there is no dot at all.
\<close>

theorem remove_extension_is_path_stem:
  "remove_extension ''archive.tar.gz'' = ''archive.tar'' \<and>
   remove_extension ''.hidden_file'' = ''.hidden_file'' \<and>
   remove_extension ''no_extension'' = ''no_extension'' \<and>
   remove_extension ''.'' = '''' \<and> spec_remove_extension ''.'' = ''.'' \<and>
   remove_extension ''name.'' = ''name.'' \<and> spec_remove_extension ''name.'' = ''name'' \<and>
   remove_extension ''dir/no_extension'' = ''no_extension'' \<and>
   spec_remove_extension ''dir/no_extension'' = ''dir/no_extension''"
  by code_simp

subsection \<open>The partial method of the difflib backend\<close>

lemma quick_matches_le_a: "quick_matches a f av m \<le> m + length a"
proof (induction a arbitrary: av m)
  case Nil
  then show ?case by simp
next
  case (Cons x xs)
  let ?numb = "case av x of Some n \<Rightarrow> n | None \<Rightarrow> f x"
  have "quick_matches (x # xs) f av m =
        quick_matches xs f (av(x \<mapsto> ?numb - 1)) (if ?numb > 0 then m + 1 else m)"
    by (simp add: Let_def)
  also have "\<dots> \<le> (if ?numb > 0 then m + 1 else m) + length xs" by (rule Cons.IH)
  also have "\<dots> \<le> m + length (x # xs)" by simp
  finally show ?case .
qed

lemma quick_matches_le_b: "quick_matches a f av m \<le> m + (\<Sum>c\<in>UNIV. still_available f av c)"
proof (induction a arbitrary: av m)
  case Nil
  then show ?case by simp
next
  case (Cons x xs)
  let ?numb = "case av x of Some n \<Rightarrow> n | None \<Rightarrow> f x"
  let ?av = "av(x \<mapsto> ?numb - 1)"
  let ?m = "if ?numb > 0 then m + 1 else m"
  have step: "quick_matches (x # xs) f av m = quick_matches xs f ?av ?m"
    by (simp add: Let_def)
  have split: "\<And>g :: char \<Rightarrow> nat. (\<Sum>c\<in>UNIV. g c) = g x + (\<Sum>c\<in>UNIV - {x}. g c)"
    by (simp add: sum.remove)
  have rest: "(\<Sum>c\<in>UNIV - {x}. still_available f ?av c) = (\<Sum>c\<in>UNIV - {x}. still_available f av c)"
    by (rule sum.cong) (auto simp: still_available_def)
  have here: "?m + still_available f ?av x = m + still_available f av x"
    by (auto simp: still_available_def)
  have "quick_matches xs f ?av ?m \<le> ?m + (\<Sum>c\<in>UNIV. still_available f ?av c)" by (rule Cons.IH)
  also have "\<dots> = ?m + still_available f ?av x + (\<Sum>c\<in>UNIV - {x}. still_available f ?av c)"
    by (subst split) simp
  also have "\<dots> = m + still_available f av x + (\<Sum>c\<in>UNIV - {x}. still_available f av c)"
    by (simp only: rest here)
  also have "\<dots> = m + (\<Sum>c\<in>UNIV. still_available f av c)"
    using split [of "still_available f av"] by simp
  finally show ?case by (simp only: step)
qed

lemma quick_ratio_bounds: "0 \<le> quick_ratio a b \<and> quick_ratio a b \<le> 1"
proof -
  let ?m = "quick_matches a (\<lambda>c. int (count_list b c)) Map.empty 0"
  have "(\<Sum>c\<in>UNIV. still_available (\<lambda>c. int (count_list b c)) Map.empty c) = (\<Sum>c\<in>UNIV. count_list b c)"
    by (simp add: still_available_def)
  also have "\<dots> = length b" by (rule sum_count_set) simp_all
  finally have "?m \<le> length b"
    using quick_matches_le_b [of a "\<lambda>c. int (count_list b c)" Map.empty 0] by simp
  moreover have "?m \<le> length a"
    using quick_matches_le_a [of a "\<lambda>c. int (count_list b c)" Map.empty 0] by simp
  ultimately have "2 * ?m \<le> length a + length b" by simp
  then have "2 * real ?m \<le> real (length a + length b)"
    by (metis of_nat_le_iff of_nat_mult of_nat_numeral)
  then have le: "2 * real ?m \<le> real (length a + length b)" .
  show ?thesis
  proof (cases "length a + length b = 0")
    case True
    then show ?thesis by (simp add: quick_ratio_def calculate_ratio_def)
  next
    case False
    then have "0 < length a + length b" by (cases a) simp_all
    then have pos: "0 < real (length a + length b)" by (simp only: of_nat_0_less_iff)
    define q where "q = 2 * real ?m / real (length a + length b)"
    have eq: "quick_ratio a b = q"
      using False by (simp add: q_def quick_ratio_def calculate_ratio_def)
    from le pos have "q \<le> 1" unfolding q_def by (simp only: divide_le_eq_1_pos)
    moreover have "0 \<le> q" unfolding q_def by (intro divide_nonneg_nonneg) simp_all
    ultimately show ?thesis by (simp only: eq)
  qed
qed

lemma difflib_partial_range:
  "get_score bk ''difflib'' ''partial'' a b = Inr (quick_ratio a b * 100) \<and>
   0 \<le> quick_ratio a b * 100 \<and> quick_ratio a b * 100 \<le> 100"
  using quick_ratio_bounds [of a b]
  by (simp add: get_score_def valid_libraries_def valid_methods_def)

text \<open>
  C9. For the library \<^verbatim>\<open>'difflib'\<close> the method \<^verbatim>\<open>'partial'\<close> is
  \<^verbatim>\<open>quick_ratio\<close>, which compares the two strings as multisets of characters. It scores
  \<^verbatim>\<open>"example"\<close> against \<^verbatim>\<open>"sampleexample"\<close> with 70 although the first string is a
  substring of the second (partial ratio 100), and \<^verbatim>\<open>"ab"\<close> against \<^verbatim>\<open>"ba"\<close> with
  100 although the only substring of length 2 is \<^verbatim>\<open>"ba"\<close> (partial ratio 50).
  The value does lie between 0 and 100 (\<open>difflib_partial_range\<close>).
\<close>

theorem difflib_partial_is_quick_ratio:
  "get_score bk ''difflib'' ''partial'' ''example'' ''sampleexample'' = Inr 70 \<and>
   spec_partial_ratio ''example'' ''sampleexample'' = 100 \<and>
   get_score bk ''difflib'' ''partial'' ''ab'' ''ba'' = Inr 100 \<and>
   spec_partial_ratio ''ab'' ''ba'' = 50"
  by code_simp

end
